theory Spec2Isabelle
  imports Main "HOL-Library.Sublist"
begin

section \<open>Colour matching (\<^verbatim>\<open>ImageRecognizer._color_match\<close>)\<close>

text \<open>
  A colour is the sequence of its channel values: a PIL pixel tuple, or the list of
  integers under \<^verbatim>\<open>color\<close> in a pixel rule. The source is
  \<^verbatim>\<open>all(abs(c1 - c2) <= tolerance for c1, c2 in zip(color1, color2))\<close>;
  \<^verbatim>\<open>zip\<close> stops at the shorter sequence.
\<close>

definition color_match :: "int list \<Rightarrow> int list \<Rightarrow> int \<Rightarrow> bool" where
  "color_match color1 color2 tolerance =
     list_all (\<lambda>(c1, c2). \<bar>c1 - c2\<bar> \<le> tolerance) (zip color1 color2)"

section \<open>Configuration lookup (\<^verbatim>\<open>ConfigLoader.get\<close>)\<close>

text \<open>
  What \<^verbatim>\<open>yaml.safe_load\<close> returns: scalars, lists and dictionaries. Keys are
  strings, as at every call site of \<^verbatim>\<open>get\<close>.
\<close>

datatype yaml =
    YNone
  | YBool bool
  | YInt int
  | YStr string
  | YList "yaml list"
  | YDict "string \<Rightarrow> yaml option"

text \<open>
  \<^verbatim>\<open>for key in keys: if isinstance(d, dict) and key in d: d = d[key] else: return default\<close>,
  then \<^verbatim>\<open>return d\<close>.
\<close>

fun get :: "yaml \<Rightarrow> string list \<Rightarrow> yaml \<Rightarrow> yaml" where
  "get d [] dflt = d"
| "get d (key # keys) dflt =
     (case d of
        YDict m \<Rightarrow> (case m key of Some v \<Rightarrow> get v keys dflt | None \<Rightarrow> dflt)
      | _ \<Rightarrow> dflt)"

text \<open>
  The path \<open>keys\<close> resolves from \<open>d\<close> to \<open>v\<close>: every key is present in the
  dictionary reached so far.
\<close>

inductive resolves :: "yaml \<Rightarrow> string list \<Rightarrow> yaml \<Rightarrow> bool" where
  resolves_Nil: "resolves d [] d"
| resolves_Cons: "m key = Some v \<Longrightarrow> resolves v keys r \<Longrightarrow> resolves (YDict m) (key # keys) r"

section \<open>Screenshots and region sampling (\<^verbatim>\<open>_average_color\<close>)\<close>

datatype error = ValueError | IndexError | ZeroDivisionError

text \<open>
  A PIL image: its size, the number of bands of its mode (3 for RGB, 4 for RGBA) and
  the pixel tuple at each coordinate. Only coordinates inside the size are ever read.
\<close>

record image =
  img_width :: nat
  img_height :: nat
  img_bands :: nat
  pixel_at :: "nat \<Rightarrow> nat \<Rightarrow> int list"

text \<open>\<^verbatim>\<open>Image.getdata()\<close>: the pixels row by row.\<close>

definition getdata :: "image \<Rightarrow> int list list" where
  "getdata im =
     concat (map (\<lambda>y. map (\<lambda>x. pixel_at im x y) [0..<img_width im]) [0..<img_height im])"

text \<open>
  \<^verbatim>\<open>Image.getpixel((x, y))\<close>: a negative coordinate counts from the far edge, and a
  coordinate outside the image raises \<^verbatim>\<open>IndexError\<close>.
\<close>

definition getpixel :: "image \<Rightarrow> int \<times> int \<Rightarrow> error + int list" where
  "getpixel im xy =
     (case xy of (x, y) \<Rightarrow>
        let x' = (if x < 0 then int (img_width im) + x else x);
            y' = (if y < 0 then int (img_height im) + y else y)
        in if 0 \<le> x' \<and> x' < int (img_width im) \<and> 0 \<le> y' \<and> y' < int (img_height im)
           then Inr (pixel_at im (nat x') (nat y'))
           else Inl IndexError)"

text \<open>
  \<^verbatim>\<open>Image.crop((left, upper, right, lower))\<close>: PIL raises \<^verbatim>\<open>ValueError\<close> when
  \<^verbatim>\<open>right < left\<close> or \<^verbatim>\<open>lower < upper\<close>; otherwise the result has the size of the
  box, and the part of the box outside the image is filled with zero pixels. PIL does no
  bounds check on the box.
\<close>

definition pixel_or_zero :: "image \<Rightarrow> int \<Rightarrow> int \<Rightarrow> int list" where
  "pixel_or_zero im sx sy =
     (if 0 \<le> sx \<and> sx < int (img_width im) \<and> 0 \<le> sy \<and> sy < int (img_height im)
      then pixel_at im (nat sx) (nat sy)
      else replicate (img_bands im) 0)"

definition crop :: "image \<Rightarrow> int \<times> int \<times> int \<times> int \<Rightarrow> error + image" where
  "crop im box =
     (case box of (left, upper, right, lower) \<Rightarrow>
        if right < left \<or> lower < upper then Inl ValueError
        else Inr \<lparr>img_width = nat (right - left), img_height = nat (lower - upper),
                  img_bands = img_bands im,
                  pixel_at = (\<lambda>x y. pixel_or_zero im (left + int x) (upper + int y))\<rparr>)"

text \<open>
  \<^verbatim>\<open>avg = tuple(sum(c[i] for c in pixels) // num_pixels for i in range(3))\<close>:
  Python's \<^verbatim>\<open>//\<close> on integers is floor division, as \<open>div\<close> on \<open>int\<close>; it raises
  \<^verbatim>\<open>ZeroDivisionError\<close> on an image without pixels, and \<^verbatim>\<open>c[i]\<close> raises
  \<^verbatim>\<open>IndexError\<close> on a pixel with fewer than three channels.
\<close>

definition average_color :: "image \<Rightarrow> error + int list" where
  "average_color pil_image =
     (let pixels = getdata pil_image; num_pixels = length pixels
      in if list_ex (\<lambda>c. length c < 3) pixels then Inl IndexError
         else if num_pixels = 0 then Inl ZeroDivisionError
         else Inr (map (\<lambda>i. sum_list (map (\<lambda>c. c ! i) pixels) div int num_pixels) [0..<3]))"

text \<open>
  The region sampling of \<^verbatim>\<open>find_pixel_and_click\<close> (the body of its \<^verbatim>\<open>try\<close>):
  \<^verbatim>\<open>screenshot.crop((left, top, left + width, top + height))\<close>, then
  \<^verbatim>\<open>_average_color\<close>.
\<close>

definition region_average :: "image \<Rightarrow> int \<times> int \<times> int \<times> int \<Rightarrow> error + int list" where
  "region_average screenshot region =
     (case region of (left, top_y, width, height) \<Rightarrow>
        (case crop screenshot (left, top_y, left + width, top_y + height) of
           Inl e \<Rightarrow> Inl e
         | Inr region_img \<Rightarrow> average_color region_img))"

text \<open>
  An image whose pixels all have the number of channels of its mode, at least three
  (RGB or RGBA), as a screenshot has.
\<close>

definition rgb_image :: "image \<Rightarrow> bool" where
  "rgb_image im \<longleftrightarrow>
     3 \<le> img_bands im
     \<and> (\<forall>x < img_width im. \<forall>y < img_height im. length (pixel_at im x y) = img_bands im)"

text \<open>
  The per-channel integer mean over the pixels of a rectangle inside the image, in the
  words of the specification: the sum of channel \<open>c\<close> over all pixels of the rectangle,
  divided by their number, rounded down.
\<close>

definition region_mean :: "image \<Rightarrow> int \<times> int \<times> int \<times> int \<Rightarrow> nat \<Rightarrow> int" where
  "region_mean im region c =
     (case region of (left, top_y, width, height) \<Rightarrow>
        (\<Sum>y = nat top_y..<nat (top_y + height). \<Sum>x = nat left..<nat (left + width).
            pixel_at im x y ! c) div (width * height))"

section \<open>Word search in the OCR result (\<^verbatim>\<open>find_text_and_click\<close>)\<close>

text \<open>
  \<^verbatim>\<open>str.lower()\<close> on ASCII letters; other characters are left as they are.
\<close>

definition lower_char :: "char \<Rightarrow> char" where
  "lower_char c =
     (case map_of (zip ''ABCDEFGHIJKLMNOPQRSTUVWXYZ'' ''abcdefghijklmnopqrstuvwxyz'') c of
        Some l \<Rightarrow> l
      | None \<Rightarrow> c)"

definition lower :: "string \<Rightarrow> string" where
  "lower s = map lower_char s"

text \<open>
  The dictionary of parallel lists that \<^verbatim>\<open>pytesseract.image_to_data\<close> returns with
  \<^verbatim>\<open>Output.DICT\<close>, one entry per word in emission order.
\<close>

record ocr_data =
  ocr_text :: "string list"
  ocr_left :: "int list"
  ocr_top :: "int list"
  ocr_width :: "int list"
  ocr_height :: "int list"
  ocr_conf :: "int list"

text \<open>
  \<^verbatim>\<open>for i, word in enumerate(ocr_result['text']): if text.lower() in word.lower(): ...\<close>
  from index \<open>i\<close> on: the point to click for the first word that contains the text,
  \<open>None\<close> when no word does, and \<^verbatim>\<open>IndexError\<close> when a coordinate list is too
  short at that word.
\<close>

fun scan_words :: "string \<Rightarrow> ocr_data \<Rightarrow> nat \<Rightarrow> string list \<Rightarrow> error + (int \<times> int) option" where
  "scan_words text ocr_result i [] = Inr None"
| "scan_words text ocr_result i (word # words) =
     (if sublist (lower text) (lower word) then
        (if i < length (ocr_left ocr_result) \<and> i < length (ocr_width ocr_result)
            \<and> i < length (ocr_top ocr_result) \<and> i < length (ocr_height ocr_result)
         then Inr (Some (ocr_left ocr_result ! i + ocr_width ocr_result ! i div 2,
                         ocr_top ocr_result ! i + ocr_height ocr_result ! i div 2))
         else Inl IndexError)
      else scan_words text ocr_result (Suc i) words)"

section \<open>The screen, the clock and the configuration\<close>

text \<open>
  All times are in milliseconds: \<^verbatim>\<open>time.time()\<close> is the field \<open>now\<close>, a timeout
  of \<^verbatim>\<open>30\<close> seconds is \<open>30000\<close>, and \<^verbatim>\<open>time.sleep(0.5)\<close> is \<open>sleep 500\<close>.
  The state records what the recognizer does to the outside: the clock, the points
  clicked, and each entry into one of the three locator methods with the time of the
  call and the timeout it was given.
\<close>

datatype stage = Template | Ocr | Pixel

record world =
  now :: int
  clicks :: "(int \<times> int) list"
  calls :: "(stage \<times> int \<times> int) list"

text \<open>
  What \<^verbatim>\<open>pyautogui.locateCenterOnScreen\<close> can do: return a point, return
  \<^verbatim>\<open>None\<close>, or raise (a missing template file, \<^verbatim>\<open>ImageNotFoundException\<close>).
\<close>

datatype locate_result = Located "int \<times> int" | NotLocated | LocateError

text \<open>
  The outside world: what is on the screen at each time, what the OCR engine makes of a
  screenshot (\<open>None\<close> when it raises), and how long each external call takes. The
  calls that the source makes outside a \<^verbatim>\<open>try\<close> block, \<^verbatim>\<open>pyautogui.screenshot\<close>
  and \<^verbatim>\<open>pyautogui.click\<close>, return normally here.
\<close>

record env =
  locateCenterOnScreen :: "int \<Rightarrow> string \<Rightarrow> locate_result"
  screenshot :: "int \<Rightarrow> image"
  image_to_data :: "image \<Rightarrow> ocr_data option"
  locate_ms :: nat
  screenshot_ms :: nat
  ocr_ms :: nat
  click_ms :: nat

text \<open>
  A pixel rule of \<^verbatim>\<open>config['pixels'][key]\<close>: the keys \<^verbatim>\<open>x\<close>, \<^verbatim>\<open>y\<close>,
  \<^verbatim>\<open>region\<close> and \<^verbatim>\<open>tolerance\<close> may be absent; the rule has a colour list.
\<close>

record pixel_cfg =
  cfg_x :: "int option"
  cfg_y :: "int option"
  cfg_region :: "(int \<times> int \<times> int \<times> int) option"
  cfg_color :: "int list"
  cfg_tolerance :: "int option"

text \<open>The value under a key of \<^verbatim>\<open>pixels\<close>: a list of rules, or a single rule.\<close>

datatype pixel_cfgs = Rules "pixel_cfg list" | Rule pixel_cfg

text \<open>
  The configuration values the recognizer reads, each \<open>None\<close> when
  the path is absent (then \<^verbatim>\<open>ConfigLoader.get\<close> returns the default of the call).
\<close>

record config =
  templates :: "string \<Rightarrow> string option"
  pixels :: "string \<Rightarrow> pixel_cfgs option"
  delays_operation :: "nat option"
  ocr_enabled_cfg :: "bool option"

text \<open>\<^verbatim>\<open>self.config.get("delays", "operation", default=1)\<close>, one second.\<close>

definition delay_operation :: "config \<Rightarrow> nat" where
  "delay_operation cfg = (case delays_operation cfg of None \<Rightarrow> 1000 | Some d \<Rightarrow> d)"

text \<open>\<^verbatim>\<open>self.ocr_enabled = config.get("ocr", "enabled", default=True)\<close>\<close>

definition ocr_enabled :: "config \<Rightarrow> bool" where
  "ocr_enabled cfg = (case ocr_enabled_cfg cfg of None \<Rightarrow> True | Some b \<Rightarrow> b)"

text \<open>\<^verbatim>\<open>time.sleep\<close>, and the time an external call takes.\<close>

definition sleep :: "nat \<Rightarrow> world \<Rightarrow> world" where
  "sleep ms w = w\<lparr>now := now w + int ms\<rparr>"

definition took :: "nat \<Rightarrow> world \<Rightarrow> world" where
  "took ms w = w\<lparr>now := now w + int ms\<rparr>"

text \<open>\<^verbatim>\<open>pyautogui.click\<close>\<close>

definition click :: "env \<Rightarrow> int \<times> int \<Rightarrow> world \<Rightarrow> world" where
  "click env p w = w\<lparr>now := now w + int (click_ms env), clicks := clicks w @ [p]\<rparr>"

text \<open>The entry into a locator method, noted with the time and the timeout argument.\<close>

definition enter :: "stage \<Rightarrow> int \<Rightarrow> world \<Rightarrow> world" where
  "enter s timeout w = w\<lparr>calls := calls w @ [(s, now w, timeout)]\<rparr>"

section \<open>Template stage (\<^verbatim>\<open>find_and_click\<close>)\<close>

text \<open>
  The polling loop of lines 36 to 49: a pass starts while
  \<^verbatim>\<open>time.time() - start_time < timeout\<close>; a located template is clicked, followed by
  the operation delay; after any other pass the loop sleeps half a second.
\<close>

function find_and_click_loop ::
  "config \<Rightarrow> env \<Rightarrow> string \<Rightarrow> int \<Rightarrow> int \<Rightarrow> world \<Rightarrow> bool \<times> world" where
  "find_and_click_loop cfg env template_path start_time timeout w =
     (if now w - start_time < timeout then
        (case locateCenterOnScreen env (now w) template_path of
           Located location \<Rightarrow>
             (True, sleep (delay_operation cfg) (click env location (took (locate_ms env) w)))
         | NotLocated \<Rightarrow>
             find_and_click_loop cfg env template_path start_time timeout
               (sleep 500 (took (locate_ms env) w))
         | LocateError \<Rightarrow>
             find_and_click_loop cfg env template_path start_time timeout
               (sleep 500 (took (locate_ms env) w)))
      else (False, w))"
  by pat_completeness auto
termination
  by (relation "measure (\<lambda>(cfg, env, template_path, start_time, timeout, w).
        nat (start_time + timeout - now w))")
     (auto simp: sleep_def took_def)

text \<open>
  \<^verbatim>\<open>if not template_path: return False\<close> covers a missing key and an empty path.
\<close>

definition find_and_click :: "config \<Rightarrow> env \<Rightarrow> string \<Rightarrow> int \<Rightarrow> world \<Rightarrow> bool \<times> world" where
  "find_and_click cfg env template_key timeout w =
     (let w0 = enter Template timeout w
      in case templates cfg template_key of
           None \<Rightarrow> (False, w0)
         | Some template_path \<Rightarrow>
             if template_path = [] then (False, w0)
             else find_and_click_loop cfg env template_path (now w0) timeout w0)"

section \<open>OCR stage (\<^verbatim>\<open>find_text_and_click\<close>)\<close>

text \<open>
  Lines 173 to 190. An exception of the OCR engine or of the word scan is logged and
  the pass counts as a miss.
\<close>

function find_text_and_click_loop ::
  "config \<Rightarrow> env \<Rightarrow> string \<Rightarrow> int \<Rightarrow> int \<Rightarrow> world \<Rightarrow> bool \<times> world" where
  "find_text_and_click_loop cfg env text start_time timeout w =
     (if now w - start_time < timeout then
        (let shot = screenshot env (now w);
             w1 = took (ocr_ms env) (took (screenshot_ms env) w)
         in case image_to_data env shot of
              None \<Rightarrow> find_text_and_click_loop cfg env text start_time timeout (sleep 500 w1)
            | Some ocr_result \<Rightarrow>
                (case scan_words text ocr_result 0 (ocr_text ocr_result) of
                   Inr (Some xy) \<Rightarrow> (True, sleep (delay_operation cfg) (click env xy w1))
                 | Inr None \<Rightarrow>
                     find_text_and_click_loop cfg env text start_time timeout (sleep 500 w1)
                 | Inl e \<Rightarrow>
                     find_text_and_click_loop cfg env text start_time timeout (sleep 500 w1)))
      else (False, w))"
  by pat_completeness auto
termination
  by (relation "measure (\<lambda>(cfg, env, text, start_time, timeout, w).
        nat (start_time + timeout - now w))")
     (auto simp: sleep_def took_def)

definition find_text_and_click :: "config \<Rightarrow> env \<Rightarrow> string \<Rightarrow> int \<Rightarrow> world \<Rightarrow> bool \<times> world" where
  "find_text_and_click cfg env text timeout w =
     (let w0 = enter Ocr timeout w
      in if \<not> ocr_enabled cfg then (False, w0)
         else find_text_and_click_loop cfg env text (now w0) timeout w0)"

section \<open>Pixel stage (\<^verbatim>\<open>find_pixel_and_click\<close>)\<close>

text \<open>
  One pass of the \<^verbatim>\<open>for\<close> loop over the rules against one screenshot (lines 94 to
  134): the point of the first rule that matches. A rule with \<^verbatim>\<open>x\<close> and
  \<^verbatim>\<open>y\<close> is a single pixel rule even when it also has a region; a read error or a
  rule of neither form is logged and the loop goes on to the next rule.
\<close>

fun match_rules :: "image \<Rightarrow> pixel_cfg list \<Rightarrow> (int \<times> int) option" where
  "match_rules shot [] = None"
| "match_rules shot (pixel_cfg # rest) =
     (let expected_color = cfg_color pixel_cfg;
          tolerance = (case cfg_tolerance pixel_cfg of None \<Rightarrow> 10 | Some t \<Rightarrow> t)
      in case (cfg_x pixel_cfg, cfg_y pixel_cfg) of
           (Some x, Some y) \<Rightarrow>
             (case getpixel shot (x, y) of
                Inl e \<Rightarrow> match_rules shot rest
              | Inr pixel_color \<Rightarrow>
                  if color_match pixel_color expected_color tolerance then Some (x, y)
                  else match_rules shot rest)
         | _ \<Rightarrow>
             (case cfg_region pixel_cfg of
                Some (left, top_y, width, height) \<Rightarrow>
                  (case region_average shot (left, top_y, width, height) of
                     Inl e \<Rightarrow> match_rules shot rest
                   | Inr avg_color \<Rightarrow>
                       if color_match avg_color expected_color tolerance
                       then Some (left + width div 2, top_y + height div 2)
                       else match_rules shot rest)
              | None \<Rightarrow> match_rules shot rest))"

function find_pixel_and_click_loop ::
  "config \<Rightarrow> env \<Rightarrow> pixel_cfg list \<Rightarrow> int \<Rightarrow> int \<Rightarrow> world \<Rightarrow> bool \<times> world" where
  "find_pixel_and_click_loop cfg env pixel_cfgs start_time timeout w =
     (if now w - start_time < timeout then
        (let shot = screenshot env (now w);
             w1 = took (screenshot_ms env) w
         in case match_rules shot pixel_cfgs of
              Some xy \<Rightarrow> (True, sleep (delay_operation cfg) (click env xy w1))
            | None \<Rightarrow>
                find_pixel_and_click_loop cfg env pixel_cfgs start_time timeout (sleep 500 w1))
      else (False, w))"
  by pat_completeness auto
termination
  by (relation "measure (\<lambda>(cfg, env, pixel_cfgs, start_time, timeout, w).
        nat (start_time + timeout - now w))")
     (auto simp: sleep_def took_def)

text \<open>
  \<^verbatim>\<open>if not pixel_cfgs: return False\<close> covers a missing key and an empty list; a
  single rule is wrapped in a list.
\<close>

definition find_pixel_and_click :: "config \<Rightarrow> env \<Rightarrow> string \<Rightarrow> int \<Rightarrow> world \<Rightarrow> bool \<times> world" where
  "find_pixel_and_click cfg env key timeout w =
     (let w0 = enter Pixel timeout w
      in case pixels cfg key of
           None \<Rightarrow> (False, w0)
         | Some (Rules []) \<Rightarrow> (False, w0)
         | Some (Rules (r # rs)) \<Rightarrow>
             find_pixel_and_click_loop cfg env (r # rs) (now w0) timeout w0
         | Some (Rule r) \<Rightarrow> find_pixel_and_click_loop cfg env [r] (now w0) timeout w0)"

declare find_and_click_loop.simps [simp del]
declare find_text_and_click_loop.simps [simp del]
declare find_pixel_and_click_loop.simps [simp del]

section \<open>The fallback chain (\<^verbatim>\<open>find_with_fallback_and_click\<close>)\<close>

text \<open>
  Lines 229 to 240, the tail of the method that both branches of the OCR step reach:
  the budget check before the pixel stage, then the pixel stage on what is left.
\<close>

definition pixel_fallback ::
  "config \<Rightarrow> env \<Rightarrow> string \<Rightarrow> int \<Rightarrow> int \<Rightarrow> world \<Rightarrow> bool \<times> world" where
  "pixel_fallback cfg env key start_time timeout w =
     (let remaining = timeout - (now w - start_time)
      in if remaining \<le> 0 then (False, w)
         else find_pixel_and_click cfg env key remaining w)"

text \<open>
  Python's truth value of the optional OCR hint \<^verbatim>\<open>text\<close>: \<^verbatim>\<open>None\<close> and the
  empty string are false.
\<close>

definition truthy :: "string option \<Rightarrow> bool" where
  "truthy text = (case text of None \<Rightarrow> False | Some t \<Rightarrow> t \<noteq> [])"

text \<open>
  Lines 202 to 227. The clock is read once for \<^verbatim>\<open>start_time\<close> and again for the
  first \<^verbatim>\<open>remaining\<close>.
\<close>

definition find_with_fallback_and_click ::
  "config \<Rightarrow> env \<Rightarrow> string \<Rightarrow> string option \<Rightarrow> int \<Rightarrow> world \<Rightarrow> bool \<times> world" where
  "find_with_fallback_and_click cfg env key text timeout w =
     (let start_time = now w;
          remaining = timeout - (now w - start_time)
      in if remaining \<le> 0 then (False, w)
         else
           (case find_and_click cfg env key remaining w of
              (True, w1) \<Rightarrow> (True, w1)
            | (False, w1) \<Rightarrow>
                if ocr_enabled cfg \<and> truthy text then
                  (let remaining = timeout - (now w1 - start_time)
                   in if remaining \<le> 0 then (False, w1)
                      else
                        (case find_text_and_click cfg env (the text) remaining w1 of
                           (True, w2) \<Rightarrow> (True, w2)
                         | (False, w2) \<Rightarrow> pixel_fallback cfg env key start_time timeout w2))
                else pixel_fallback cfg env key start_time timeout w1))"

text \<open>
  The longest a single polling pass of any stage can take: the external calls of the
  pass, then either the click and the operation delay or the half second of sleep.
\<close>

definition pass_ms :: "config \<Rightarrow> env \<Rightarrow> nat" where
  "pass_ms cfg env =
     locate_ms env + screenshot_ms env + ocr_ms env + max (click_ms env + delay_operation cfg) 500"

section \<open>The relay loop (\<^verbatim>\<open>RelayAutomation.run\<close>)\<close>

text \<open>
  The \<^verbatim>\<open>retries\<close> section of the configuration, each value \<open>None\<close> when absent.
\<close>

record retries_cfg =
  max_retries_per_iteration :: "int option"
  backoff_base_seconds :: "int option"
  max_backoff_seconds :: "int option"

text \<open>
  What one pass of the inner \<^verbatim>\<open>while True\<close> can do. With the pause flag set it waits
  and does \<^verbatim>\<open>continue\<close>. Otherwise it runs the body of the \<^verbatim>\<open>try\<close>, which
  reaches the \<^verbatim>\<open>break\<close> of line 284, or a \<^verbatim>\<open>continue\<close> (lines 149 and 158), or
  raises \<^verbatim>\<open>RuntimeError\<close>, or raises something else, which leaves \<^verbatim>\<open>run\<close>.
  The detection, clipboard and browser steps of the body are outside this model: a
  run is driven by the list of what its successive passes do.
\<close>

datatype outcome = Completed | Continue | Runtime_Error | Other_Exception

datatype pass = Paused | Attempt outcome

text \<open>What the loop logs and does, in order; backoff sleeps are in seconds.\<close>

datatype event =
    Resumed
  | Starting nat nat
  | Iteration_completed nat
  | Attempt_failed nat
  | Max_retries_reached nat
  | Backoff_sleep int
  | Stopped

text \<open>
  Lines 87 to 298, with the two nested loops as one recursion over the passes: leaving
  the inner loop by \<^verbatim>\<open>break\<close> re-enters it with \<^verbatim>\<open>retries = 0\<close>.
  \<open>iterations\<close> is \<^verbatim>\<open>self.iterations\<close>, incremented at line 99 inside the inner
  loop.
\<close>

fun run_loop :: "int \<Rightarrow> int \<Rightarrow> int \<Rightarrow> pass list \<Rightarrow> nat \<Rightarrow> nat \<Rightarrow> event list" where
  "run_loop max_retries backoff_base max_backoff [] iterations retries = []"
| "run_loop max_retries backoff_base max_backoff (Paused # script) iterations retries =
     Resumed # run_loop max_retries backoff_base max_backoff script iterations retries"
| "run_loop max_retries backoff_base max_backoff (Attempt what # script) iterations retries =
     (let iterations = iterations + 1
      in Starting iterations (retries + 1) #
         (case what of
            Completed \<Rightarrow>
              Iteration_completed iterations #
              run_loop max_retries backoff_base max_backoff script iterations 0
          | Continue \<Rightarrow> run_loop max_retries backoff_base max_backoff script iterations retries
          | Other_Exception \<Rightarrow> [Stopped]
          | Runtime_Error \<Rightarrow>
              (let retries = retries + 1
               in Attempt_failed retries #
                  (if int retries \<ge> max_retries then
                     Max_retries_reached iterations #
                     run_loop max_retries backoff_base max_backoff script iterations 0
                   else
                     (let backoff = min (backoff_base * 2 ^ (retries - 1)) max_backoff
                      in Backoff_sleep backoff #
                         run_loop max_retries backoff_base max_backoff script iterations retries)))))"

text \<open>
  Lines 82 to 84 read the three values with their defaults; \<^verbatim>\<open>self.iterations\<close>
  starts at \<open>0\<close>.
\<close>

definition run :: "retries_cfg \<Rightarrow> pass list \<Rightarrow> event list" where
  "run cfg script =
     (let max_retries = (case max_retries_per_iteration cfg of None \<Rightarrow> 5 | Some n \<Rightarrow> n);
          backoff_base = (case backoff_base_seconds cfg of None \<Rightarrow> 2 | Some n \<Rightarrow> n);
          max_backoff = (case max_backoff_seconds cfg of None \<Rightarrow> 30 | Some n \<Rightarrow> n)
      in run_loop max_retries backoff_base max_backoff script 0 0)"

text \<open>The backoff sleeps of a run, and the (iteration, attempt) numbers it logs.\<close>

fun sleeps_of :: "event list \<Rightarrow> int list" where
  "sleeps_of [] = []"
| "sleeps_of (Backoff_sleep b # es) = b # sleeps_of es"
| "sleeps_of (e # es) = sleeps_of es"

fun attempts_of :: "event list \<Rightarrow> (nat \<times> nat) list" where
  "attempts_of [] = []"
| "attempts_of (Starting i a # es) = (i, a) # attempts_of es"
| "attempts_of (e # es) = attempts_of es"

fun skips_of :: "event list \<Rightarrow> nat" where
  "skips_of [] = 0"
| "skips_of (Max_retries_reached i # es) = Suc (skips_of es)"
| "skips_of (e # es) = skips_of es"

section \<open>Example screens and configurations\<close>

text \<open>A world at time \<open>0\<close> in which nothing has been done yet.\<close>

definition fresh :: world where
  "fresh = \<lparr>now = 0, clicks = [], calls = []\<rparr>"

text \<open>An all-white RGB screen of 1920 by 1080 pixels.\<close>

definition white_screen :: image where
  "white_screen = \<lparr>img_width = 1920, img_height = 1080, img_bands = 3,
     pixel_at = (\<lambda>x y. [255, 255, 255])\<rparr>"

text \<open>A grey RGB image of 2 by 2 pixels.\<close>

definition grey_square :: image where
  "grey_square = \<lparr>img_width = 2, img_height = 2, img_bands = 3,
     pixel_at = (\<lambda>x y. [100, 100, 100])\<rparr>"

text \<open>
  An OCR result of three words: the second is \<^verbatim>\<open>Submit\<close> at left 100, top 200,
  width 40, height 15, with confidence 50; the third also contains the text, with
  confidence 99.
\<close>

definition submit_words :: ocr_data where
  "submit_words = \<lparr>ocr_text = [''File'', ''Submit'', ''SUBMIT!''],
     ocr_left = [10, 100, 300], ocr_top = [20, 200, 400],
     ocr_width = [30, 40, 80], ocr_height = [10, 15, 30], ocr_conf = [90, 50, 99]\<rparr>"

text \<open>
  A still white screen on which no template is ever located and the OCR engine reads
  the words above; external calls take no time.
\<close>

definition submit_screen :: env where
  "submit_screen = \<lparr>locateCenterOnScreen = (\<lambda>t path. NotLocated),
     screenshot = (\<lambda>t. white_screen), image_to_data = (\<lambda>im. Some submit_words),
     locate_ms = 0, screenshot_ms = 0, ocr_ms = 0, click_ms = 0\<rparr>"

text \<open>An empty configuration file: every lookup yields its default.\<close>

definition no_config :: config where
  "no_config = \<lparr>templates = (\<lambda>key. None), pixels = (\<lambda>key. None),
     delays_operation = None, ocr_enabled_cfg = None\<rparr>"

text \<open>A single pixel rule: the pixel at (100, 200) is white within a tolerance of 20.\<close>

definition white_pixel_rule :: pixel_cfg where
  "white_pixel_rule = \<lparr>cfg_x = Some 100, cfg_y = Some 200, cfg_region = None,
     cfg_color = [255, 255, 255], cfg_tolerance = Some 20\<rparr>"

text \<open>
  A configuration with that pixel rule for the key \<^verbatim>\<open>vscode_copy_button\<close> and no
  template for it.
\<close>

definition pixel_only_config :: config where
  "pixel_only_config = \<lparr>templates = (\<lambda>key. None),
     pixels = [''vscode_copy_button'' \<mapsto> Rules [white_pixel_rule]],
     delays_operation = None, ocr_enabled_cfg = None\<rparr>"

text \<open>A configuration with a template for the key and no pixel rule.\<close>

definition copy_config :: config where
  "copy_config = \<lparr>templates = [''vscode_copy_button'' \<mapsto> ''templates/vscode_copy_button.png''],
     pixels = (\<lambda>key. None), delays_operation = None, ocr_enabled_cfg = None\<rparr>"

text \<open>A screen on which every template is located at (640, 480) at once.\<close>

definition copy_visible :: env where
  "copy_visible = \<lparr>locateCenterOnScreen = (\<lambda>t path. Located (640, 480)),
     screenshot = (\<lambda>t. white_screen), image_to_data = (\<lambda>im. None),
     locate_ms = 0, screenshot_ms = 0, ocr_ms = 0, click_ms = 0\<rparr>"

text \<open>
  A screen on which no template is ever located, each search taking 100 milliseconds.
\<close>

definition slow_blank :: env where
  "slow_blank = \<lparr>locateCenterOnScreen = (\<lambda>t path. NotLocated),
     screenshot = (\<lambda>t. white_screen), image_to_data = (\<lambda>im. None),
     locate_ms = 100, screenshot_ms = 0, ocr_ms = 0, click_ms = 0\<rparr>"

section \<open>Properties of colour matching\<close>

lemma color_match_nth:
  "color_match a b t \<longleftrightarrow> (\<forall>i < min (length a) (length b). \<bar>a ! i - b ! i\<bar> \<le> t)"
  by (auto simp: color_match_def list_all_length)

lemma color_match_sym: "color_match a b t = color_match b a t"
  by (auto simp: color_match_nth abs_minus_commute)

text \<open>
  C8. For RGB triples \<open>a\<close>, \<open>b\<close> and every tolerance \<open>t\<close>: the predicate is symmetric,
  it holds of \<open>a\<close> and \<open>a\<close> for every \<open>t \<ge> 0\<close>, and it holds exactly when every
  channel differs by at most \<open>t\<close>. It is a pure function of its three arguments.
\<close>

theorem color_match_rgb:
  assumes "length a = 3" and "length b = 3"
  shows "color_match a b t = color_match b a t
       \<and> (0 \<le> t \<longrightarrow> color_match a a t)
       \<and> (color_match a b t \<longleftrightarrow> (\<forall>c < 3. \<bar>a ! c - b ! c\<bar> \<le> t))"
proof -
  have "color_match a b t = color_match b a t"
    by (rule color_match_sym)
  moreover have "0 \<le> t \<longrightarrow> color_match a a t"
    by (simp add: color_match_nth)
  moreover have "color_match a b t \<longleftrightarrow> (\<forall>c < 3. \<bar>a ! c - b ! c\<bar> \<le> t)"
    using assms by (simp add: color_match_nth)
  ultimately show ?thesis by blast
qed

theorem color_match_rgb_witness:
  "length [250, 128, 0 :: int] = 3 \<and> length [255, 120, 5 :: int] = 3 \<and> (0::int) \<le> 10
   \<and> color_match [250, 128, 0] [255, 120, 5] 10 = color_match [255, 120, 5] [250, 128, 0] 10
   \<and> color_match [250, 128, 0] [250, 128, 0] 10
   \<and> color_match [250, 128, 0] [255, 120, 5] 10
   \<and> \<not> color_match [250, 128, 0] [255, 120, 5] 7"
  using color_match_rgb [of "[250, 128, 0]" "[255, 120, 5]" 10]
    color_match_rgb [of "[250, 128, 0]" "[255, 120, 5]" 7]
  by (simp add: color_match_def)

text \<open>
  C10. The predicate is defined on colour sequences of any two lengths and compares
  only the channels both have, so that its value is the one on the two sequences cut to
  the shorter length: an RGBA pixel against a three-element expected colour ignores
  alpha, and every colour matches the empty expected colour.
\<close>

theorem color_match_truncates:
  "(color_match a b t \<longleftrightarrow> (\<forall>i < min (length a) (length b). \<bar>a ! i - b ! i\<bar> \<le> t))
   \<and> color_match a b t
       = color_match (take (min (length a) (length b)) a) (take (min (length a) (length b)) b) t
   \<and> color_match [r, g, bl, alpha] [r', g', bl'] t = color_match [r, g, bl] [r', g', bl'] t
   \<and> color_match a [] t"
proof -
  have "color_match a b t
      = color_match (take (min (length a) (length b)) a) (take (min (length a) (length b)) b) t"
    by (simp add: color_match_nth)
  then show ?thesis
    using color_match_nth [of a b t] by (simp add: color_match_def)
qed

theorem color_match_truncates_witness:
  "color_match [255, 255, 255, 0] [250, 250, 250] 10
   \<and> color_match [255, 255, 255, 0] [250, 250, 250] 10 = color_match [255, 255, 255] [250, 250, 250] 10
   \<and> color_match [255, 255, 255, 0] [] 10"
  using color_match_truncates [of "[255, 255, 255, 0]" "[250, 250, 250]" 10 255 255 255 0 250 250 250]
  by (simp add: color_match_def)

section \<open>Properties of configuration lookup\<close>

lemma get_resolves: "resolves d keys v \<Longrightarrow> get d keys dflt = v"
  by (induction rule: resolves.induct) simp_all

lemma get_unresolved: "\<not> (\<exists>v. resolves d keys v) \<Longrightarrow> get d keys dflt = dflt"
proof (induction keys arbitrary: d)
  case Nil
  then show ?case using resolves_Nil by blast
next
  case (Cons key keys)
  show ?case
  proof (cases d)
    case (YDict m)
    show ?thesis
    proof (cases "m key")
      case None
      with YDict show ?thesis by simp
    next
      case (Some v)
      have "\<not> (\<exists>r. resolves v keys r)"
        using Cons.prems YDict Some resolves_Cons by blast
      then have "get v keys dflt = dflt" by (rule Cons.IH)
      with YDict Some show ?thesis by simp
    qed
  qed simp_all
qed

lemma get_append: "resolves d ks v \<Longrightarrow> get d (ks @ rest) dflt = get v rest dflt"
  by (induction rule: resolves.induct) simp_all

lemma get_cases: "get d keys dflt = dflt \<or> resolves d keys (get d keys dflt)"
proof (cases "\<exists>r. resolves d keys r")
  case True
  then show ?thesis using get_resolves by metis
next
  case False
  then show ?thesis by (simp add: get_unresolved)
qed

text \<open>
  C9. \<^verbatim>\<open>get\<close> is total: for every path and default it returns the nested value when
  every key of the path is present in the successive dictionaries, and the default as
  soon as the value reached is not a dictionary or lacks the next key; there is no
  third outcome.
\<close>

theorem get_total:
  "(resolves d keys v \<longrightarrow> get d keys dflt = v)
   \<and> (resolves d ks u \<and> (\<forall>m. u = YDict m \<longrightarrow> m key = None) \<longrightarrow> get d (ks @ key # rest) dflt = dflt)
   \<and> (get d keys dflt = dflt \<or> resolves d keys (get d keys dflt))"
proof -
  have "get u (key # rest) dflt = dflt" if "\<forall>m. u = YDict m \<longrightarrow> m key = None"
    using that by (cases u) simp_all
  then have "resolves d ks u \<and> (\<forall>m. u = YDict m \<longrightarrow> m key = None)
      \<longrightarrow> get d (ks @ key # rest) dflt = dflt"
    using get_append [of d ks u "key # rest" dflt] by metis
  then show ?thesis
    using get_resolves [of d keys v dflt] get_cases [of d keys dflt] by blast
qed

theorem get_total_witness:
  "resolves (YDict [''retries'' \<mapsto> YDict [''backoff_base_seconds'' \<mapsto> YInt 2]])
     [''retries'', ''backoff_base_seconds''] (YInt 2)
   \<and> get (YDict [''retries'' \<mapsto> YDict [''backoff_base_seconds'' \<mapsto> YInt 2]])
       [''retries'', ''backoff_base_seconds''] (YInt 7) = YInt 2
   \<and> resolves (YDict [''retries'' \<mapsto> YDict [''backoff_base_seconds'' \<mapsto> YInt 2]])
       [''retries''] (YDict [''backoff_base_seconds'' \<mapsto> YInt 2])
   \<and> get (YDict [''retries'' \<mapsto> YDict [''backoff_base_seconds'' \<mapsto> YInt 2]])
       ([''retries''] @ ''max_backoff_seconds'' # []) (YInt 30) = YInt 30"
proof -
  let ?inner = "YDict [''backoff_base_seconds'' \<mapsto> YInt 2]"
  let ?d = "YDict [''retries'' \<mapsto> ?inner]"
  have r0: "resolves ?inner [''backoff_base_seconds''] (YInt 2)"
    using resolves_Cons [of "[''backoff_base_seconds'' \<mapsto> YInt 2]" "''backoff_base_seconds''"
        "YInt 2" "[]" "YInt 2"] resolves_Nil [of "YInt 2"]
    by simp
  have r1: "resolves ?d [''retries''] ?inner"
    using resolves_Cons [of "[''retries'' \<mapsto> ?inner]" "''retries''" ?inner "[]" ?inner]
      resolves_Nil [of ?inner]
    by simp
  have r2: "resolves ?d [''retries'', ''backoff_base_seconds''] (YInt 2)"
    using resolves_Cons [of "[''retries'' \<mapsto> ?inner]" "''retries''" ?inner
        "[''backoff_base_seconds'']" "YInt 2"] r0
    by simp
  have miss: "\<forall>m. ?inner = YDict m \<longrightarrow> m ''max_backoff_seconds'' = None"
  proof (intro allI impI)
    fix m assume "?inner = YDict m"
    then have "m = [''backoff_base_seconds'' \<mapsto> YInt 2]" by simp
    then show "m ''max_backoff_seconds'' = None" by simp
  qed
  show ?thesis
    using r1 r2 miss
      get_total [of ?d "[''retries'', ''backoff_base_seconds'']" "YInt 2" "YInt 7"
                    "[''retries'']" ?inner "''max_backoff_seconds''" "[]"]
      get_total [of ?d "[''retries'', ''backoff_base_seconds'']" "YInt 2" "YInt 30"
                    "[''retries'']" ?inner "''max_backoff_seconds''" "[]"]
    by blast
qed

section \<open>Properties of region sampling\<close>

lemma length_getdata: "length (getdata im) = img_width im * img_height im"
  by (simp add: getdata_def length_concat comp_def sum_list_triv)

lemma sum_list_concat_rows: "sum_list (concat xss) = sum_list (map sum_list xss)"
  for xss :: "int list list"
  by (induction xss) simp_all

lemma getdata_channel_sum:
  "sum_list (map (\<lambda>c. c ! i) (getdata im)) =
     (\<Sum>y = 0..<img_height im. \<Sum>x = 0..<img_width im. pixel_at im x y ! i)"
  by (simp add: getdata_def map_concat sum_list_concat_rows comp_def
      interv_sum_list_conv_sum_set_nat)

lemma set_getdata:
  "set (getdata im) = {pixel_at im x y | x y. x < img_width im \<and> y < img_height im}"
  by (auto simp: getdata_def) blast

lemma getdata_short_channel:
  "list_ex (\<lambda>c. length c < 3) (getdata im) \<longleftrightarrow>
     (\<exists>x < img_width im. \<exists>y < img_height im. length (pixel_at im x y) < 3)"
  unfolding list_ex_iff set_getdata by blast

lemma region_average_empty:
  assumes "width \<le> 0 \<or> height \<le> 0"
  shows "isl (region_average shot (left, top_y, width, height))"
proof (cases "width < 0 \<or> height < 0")
  case True
  then show ?thesis by (auto simp: region_average_def crop_def)
next
  case False
  with assms have "width = 0 \<or> height = 0" by auto
  then show ?thesis
    by (auto simp: region_average_def crop_def average_color_def Let_def length_getdata
        getdata_short_channel)
qed

lemma pixel_or_zero_length:
  "rgb_image im \<Longrightarrow> length (pixel_or_zero im sx sy) = img_bands im"
  by (auto simp: rgb_image_def pixel_or_zero_def)

lemma region_average_positive:
  assumes "0 < width" and "0 < height" and "rgb_image shot"
  shows "region_average shot (left, top_y, width, height) =
    Inr (map (\<lambda>c. (\<Sum>y = 0..<nat height. \<Sum>x = 0..<nat width.
                      pixel_or_zero shot (left + int x) (top_y + int y) ! c) div (width * height))
          [0..<3])"
proof -
  have "3 \<le> img_bands shot" using assms(3) by (simp add: rgb_image_def)
  then have ok: "\<And>sx sy. \<not> length (pixel_or_zero shot sx sy) < 3"
    using pixel_or_zero_length [OF assms(3)] by simp
  show ?thesis
    using assms(1,2) ok
    by (simp add: region_average_def crop_def average_color_def Let_def length_getdata
        getdata_short_channel getdata_channel_sum nat_mult_distrib)
qed

lemma region_sum_inside:
  assumes "0 \<le> left" and "0 \<le> top_y" and "0 < width" and "0 < height"
    and "left + width \<le> int (img_width shot)" and "top_y + height \<le> int (img_height shot)"
  shows "(\<Sum>y = 0..<nat height. \<Sum>x = 0..<nat width.
            pixel_or_zero shot (left + int x) (top_y + int y) ! c) =
         (\<Sum>y = nat top_y..<nat (top_y + height). \<Sum>x = nat left..<nat (left + width).
            pixel_at shot x y ! c)"
proof -
  have inside: "pixel_or_zero shot (left + int x) (top_y + int y) = pixel_at shot (x + nat left) (y + nat top_y)"
    if "x < nat width" and "y < nat height" for x y
  proof -
    have "left + int x < int (img_width shot)" and "top_y + int y < int (img_height shot)"
      using that assms by linarith+
    then show ?thesis
      using assms by (simp add: pixel_or_zero_def nat_add_distrib add.commute)
  qed
  have "(\<Sum>y = 0..<nat height. \<Sum>x = 0..<nat width.
            pixel_or_zero shot (left + int x) (top_y + int y) ! c) =
        (\<Sum>y = 0..<nat height. \<Sum>x = 0..<nat width. pixel_at shot (x + nat left) (y + nat top_y) ! c)"
    by (intro sum.cong refl) (simp add: inside)
  also have "\<dots> = (\<Sum>y = 0 + nat top_y..<nat height + nat top_y.
                     \<Sum>x = 0 + nat left..<nat width + nat left. pixel_at shot x y ! c)"
    by (simp only: sum.shift_bounds_nat_ivl)
  also have "\<dots> = (\<Sum>y = nat top_y..<nat (top_y + height). \<Sum>x = nat left..<nat (left + width).
                     pixel_at shot x y ! c)"
    using assms by (simp add: nat_add_distrib add.commute)
  finally show ?thesis .
qed

text \<open>
  C6, as the code has it. Region sampling fails whenever the width or the height is
  not positive. On a rectangle with positive width and height inside the image it
  returns the per-channel floor of the mean over the rectangle's pixels. It has no
  bounds check: with positive width and height it never fails, and the part of the
  rectangle outside the image counts as zero pixels.
\<close>

theorem region_average_spec:
  "(width \<le> 0 \<or> height \<le> 0 \<longrightarrow> isl (region_average shot (left, top_y, width, height)))
   \<and> (0 < width \<and> 0 < height \<and> rgb_image shot \<and> 0 \<le> left \<and> 0 \<le> top_y
        \<and> left + width \<le> int (img_width shot) \<and> top_y + height \<le> int (img_height shot)
      \<longrightarrow> region_average shot (left, top_y, width, height) =
            Inr (map (region_mean shot (left, top_y, width, height)) [0..<3]))
   \<and> (0 < width \<and> 0 < height \<and> rgb_image shot
      \<longrightarrow> region_average shot (left, top_y, width, height) =
            Inr (map (\<lambda>c. (\<Sum>y = 0..<nat height. \<Sum>x = 0..<nat width.
                      pixel_or_zero shot (left + int x) (top_y + int y) ! c) div (width * height))
                  [0..<3]))"
proof (intro conjI impI)
  assume "width \<le> 0 \<or> height \<le> 0"
  then show "isl (region_average shot (left, top_y, width, height))"
    by (rule region_average_empty)
next
  assume h: "0 < width \<and> 0 < height \<and> rgb_image shot \<and> 0 \<le> left \<and> 0 \<le> top_y
        \<and> left + width \<le> int (img_width shot) \<and> top_y + height \<le> int (img_height shot)"
  then have "region_average shot (left, top_y, width, height) =
    Inr (map (\<lambda>c. (\<Sum>y = 0..<nat height. \<Sum>x = 0..<nat width.
                      pixel_or_zero shot (left + int x) (top_y + int y) ! c) div (width * height))
          [0..<3])"
    by (simp add: region_average_positive)
  also have "\<dots> = Inr (map (region_mean shot (left, top_y, width, height)) [0..<3])"
    using h by (simp add: region_mean_def region_sum_inside)
  finally show "region_average shot (left, top_y, width, height) =
      Inr (map (region_mean shot (left, top_y, width, height)) [0..<3])" .
next
  assume "0 < width \<and> 0 < height \<and> rgb_image shot"
  then show "region_average shot (left, top_y, width, height) =
    Inr (map (\<lambda>c. (\<Sum>y = 0..<nat height. \<Sum>x = 0..<nat width.
                      pixel_or_zero shot (left + int x) (top_y + int y) ! c) div (width * height))
          [0..<3])"
    by (simp add: region_average_positive)
qed

lemma rgb_white_screen: "rgb_image white_screen"
  by (simp add: rgb_image_def white_screen_def)

theorem region_average_spec_witness:
  "isl (region_average white_screen (300, 400, 0, 20))
   \<and> rgb_image white_screen
   \<and> region_average white_screen (300, 400, 50, 20) = Inr [255, 255, 255]"
proof -
  have channels: "[0..<3] = [0, 1, 2 :: nat]"
    by code_simp
  have means: "map (region_mean white_screen (300, 400, 50, 20)) [0, 1, 2] = [255, 255, 255]"
    by (simp add: region_mean_def white_screen_def)
  have a: "isl (region_average white_screen (300, 400, 0, 20))"
    using region_average_spec [of 0 20 white_screen 300 400] by simp
  have "(0::int) < 50 \<and> (0::int) < 20 \<and> rgb_image white_screen \<and> (0::int) \<le> 300 \<and> (0::int) \<le> 400
      \<and> 300 + 50 \<le> int (img_width white_screen) \<and> 400 + 20 \<le> int (img_height white_screen)"
    using rgb_white_screen by (simp add: white_screen_def)
  then have "region_average white_screen (300, 400, 50, 20) =
      Inr (map (region_mean white_screen (300, 400, 50, 20)) [0..<3])"
    using region_average_spec [of 50 20 white_screen 300 400] by blast
  then have b: "region_average white_screen (300, 400, 50, 20) = Inr [255, 255, 255]"
    by (simp only: channels means)
  show ?thesis using a b rgb_white_screen by simp
qed

theorem region_average_outside_counterexample:
  "region_average grey_square (1, 1, 2, 2) = Inr [25, 25, 25]
   \<and> region_average grey_square (5, 5, 2, 2) = Inr [0, 0, 0]"
  by code_simp

section \<open>Properties of the OCR stage\<close>

lemma scan_words_first_hit:
  assumes "i < length words"
    and "sublist (lower text) (lower (words ! i))"
    and "\<forall>j < i. \<not> sublist (lower text) (lower (words ! j))"
    and "k + i < length (ocr_left r)" and "k + i < length (ocr_width r)"
    and "k + i < length (ocr_top r)" and "k + i < length (ocr_height r)"
  shows "scan_words text r k words =
    Inr (Some (ocr_left r ! (k + i) + ocr_width r ! (k + i) div 2,
               ocr_top r ! (k + i) + ocr_height r ! (k + i) div 2))"
  using assms
proof (induction words arbitrary: i k)
  case Nil
  then show ?case by simp
next
  case (Cons word words)
  show ?case
  proof (cases i)
    case 0
    with Cons.prems show ?thesis by simp
  next
    case (Suc i')
    have miss: "\<not> sublist (lower text) (lower word)"
      using Cons.prems(3) Suc by auto
    have "scan_words text r (Suc k) words =
      Inr (Some (ocr_left r ! (Suc k + i') + ocr_width r ! (Suc k + i') div 2,
                 ocr_top r ! (Suc k + i') + ocr_height r ! (Suc k + i') div 2))"
    proof (rule Cons.IH)
      show "i' < length words" using Cons.prems(1) Suc by simp
      show "sublist (lower text) (lower (words ! i'))" using Cons.prems(2) Suc by simp
      show "\<forall>j<i'. \<not> sublist (lower text) (lower (words ! j))"
        using Cons.prems(3) Suc by auto
    qed (use Cons.prems Suc in simp_all)
    with miss Suc show ?thesis by simp
  qed
qed

lemma text_loop_hit:
  assumes "now w - start_time < timeout"
    and "image_to_data env (screenshot env (now w)) = Some r"
    and "scan_words text r 0 (ocr_text r) = Inr (Some xy)"
  shows "find_text_and_click_loop cfg env text start_time timeout w =
    (True, sleep (delay_operation cfg)
             (click env xy (took (ocr_ms env) (took (screenshot_ms env) w))))"
  by (subst find_text_and_click_loop.simps) (simp add: assms Let_def)

lemma find_text_first_pass:
  assumes "ocr_enabled cfg" and "0 < timeout"
    and "image_to_data env (screenshot env (now w)) = Some r"
    and "scan_words text r 0 (ocr_text r) = Inr (Some xy)"
  shows "find_text_and_click cfg env text timeout w =
    (True, w\<lparr>now := now w + int (screenshot_ms env) + int (ocr_ms env) + int (click_ms env)
                 + int (delay_operation cfg),
             clicks := clicks w @ [xy],
             calls := calls w @ [(Ocr, now w, timeout)]\<rparr>)"
proof -
  let ?w0 = "enter Ocr timeout w"
  have "find_text_and_click_loop cfg env text (now ?w0) timeout ?w0 =
    (True, sleep (delay_operation cfg)
             (click env xy (took (ocr_ms env) (took (screenshot_ms env) ?w0))))"
    by (rule text_loop_hit [where r = r]) (use assms in \<open>simp_all add: enter_def\<close>)
  then show ?thesis
    using assms(1)
    by (simp add: find_text_and_click_def Let_def enter_def sleep_def took_def click_def)
qed

text \<open>
  C7. When the OCR result of the first screenshot has, at index \<open>i\<close>, the first word that
  contains the text case-insensitively, \<^verbatim>\<open>find_text_and_click\<close> succeeds in that
  pass and clicks \<open>(left + width div 2, top + height div 2)\<close> of that word's box; words
  after it and the confidence values play no part. For the word \<^verbatim>\<open>Submit\<close> at
  left 100, top 200, width 40, height 15 the point is \<open>(120, 207)\<close>.
\<close>

theorem ocr_clicks_center_of_first_hit:
  assumes "ocr_enabled cfg" and "0 < timeout"
    and "image_to_data env (screenshot env (now w)) = Some r"
    and "i < length (ocr_text r)"
    and "sublist (lower text) (lower (ocr_text r ! i))"
    and "\<forall>j < i. \<not> sublist (lower text) (lower (ocr_text r ! j))"
    and "i < length (ocr_left r)" and "i < length (ocr_width r)"
    and "i < length (ocr_top r)" and "i < length (ocr_height r)"
  shows "find_text_and_click cfg env text timeout w =
    (True, w\<lparr>now := now w + int (screenshot_ms env) + int (ocr_ms env) + int (click_ms env)
                 + int (delay_operation cfg),
             clicks := clicks w @ [(ocr_left r ! i + ocr_width r ! i div 2,
                                    ocr_top r ! i + ocr_height r ! i div 2)],
             calls := calls w @ [(Ocr, now w, timeout)]\<rparr>)
    \<and> (ocr_left r ! i = 100 \<and> ocr_top r ! i = 200 \<and> ocr_width r ! i = 40 \<and> ocr_height r ! i = 15
        \<longrightarrow> clicks (snd (find_text_and_click cfg env text timeout w)) = clicks w @ [(120, 207)])"
proof -
  have "scan_words text r 0 (ocr_text r) =
    Inr (Some (ocr_left r ! (0 + i) + ocr_width r ! (0 + i) div 2,
               ocr_top r ! (0 + i) + ocr_height r ! (0 + i) div 2))"
    by (rule scan_words_first_hit) (use assms in simp_all)
  then have "scan_words text r 0 (ocr_text r) =
    Inr (Some (ocr_left r ! i + ocr_width r ! i div 2, ocr_top r ! i + ocr_height r ! i div 2))"
    by simp
  from find_text_first_pass [OF assms(1) assms(2) assms(3) this]
  show ?thesis by simp
qed

lemma submit_not_in_file: "\<not> sublist (lower ''Submit'') (lower ''File'')"
  by code_simp

lemma submit_in_submit: "sublist (lower ''Submit'') (lower ''Submit'')"
  by simp

theorem ocr_clicks_center_of_first_hit_witness:
  "ocr_enabled no_config \<and> (0::int) < 10000
   \<and> image_to_data submit_screen (screenshot submit_screen (now fresh)) = Some submit_words
   \<and> ocr_text submit_words ! 1 = ''Submit''
   \<and> \<not> sublist (lower ''Submit'') (lower (ocr_text submit_words ! 0))
   \<and> sublist (lower ''Submit'') (lower (ocr_text submit_words ! 2))
   \<and> find_text_and_click no_config submit_screen ''Submit'' 10000 fresh =
       (True, \<lparr>now = 1000, clicks = [(120, 207)], calls = [(Ocr, 0, 10000)]\<rparr>)"
proof -
  have enabled: "ocr_enabled no_config"
    by (simp add: ocr_enabled_def no_config_def)
  have ocr: "image_to_data submit_screen (screenshot submit_screen (now fresh)) = Some submit_words"
    by (simp add: submit_screen_def)
  have hit: "sublist (lower ''Submit'') (lower (ocr_text submit_words ! 1))"
    using submit_in_submit by (simp add: submit_words_def)
  have first: "\<forall>j < 1. \<not> sublist (lower ''Submit'') (lower (ocr_text submit_words ! j))"
    using submit_not_in_file by (simp add: submit_words_def)
  have later: "sublist (lower ''Submit'') (lower (ocr_text submit_words ! 2))"
    unfolding submit_words_def by code_simp
  have "find_text_and_click no_config submit_screen ''Submit'' 10000 fresh =
      (True, \<lparr>now = 1000, clicks = [(120, 207)], calls = [(Ocr, 0, 10000)]\<rparr>)"
    using ocr_clicks_center_of_first_hit [OF enabled _ ocr _ hit first, of 10000]
    by (simp add: submit_words_def submit_screen_def fresh_def no_config_def delay_operation_def)
  with enabled ocr first later show ?thesis
    by (simp add: submit_words_def)
qed

section \<open>Properties of the polling loops and of the chain\<close>

lemma find_and_click_loop_inv:
  assumes "find_and_click_loop cfg env template_path start_time timeout w = (found, w')"
  shows "calls w' = calls w \<and> now w \<le> now w'
       \<and> now w' \<le> max (now w) (start_time + timeout + int (pass_ms cfg env))
       \<and> (\<not> found \<longrightarrow> clicks w' = clicks w \<and> timeout \<le> now w' - start_time)"
  using assms
proof (induction cfg env template_path start_time timeout w rule: find_and_click_loop.induct)
  case (1 cfg env template_path start_time timeout w)
  show ?case
  proof (cases "now w - start_time < timeout")
    case False
    with "1.prems" show ?thesis
      by (simp add: find_and_click_loop.simps [of cfg env template_path start_time timeout w])
  next
    case True
    let ?w1 = "sleep 500 (took (locate_ms env) w)"
    show ?thesis
    proof (cases "locateCenterOnScreen env (now w) template_path")
      case (Located location)
      with True "1.prems" show ?thesis
        by (auto simp: find_and_click_loop.simps [of cfg env template_path start_time timeout w]
            sleep_def took_def click_def pass_ms_def)
    next
      case NotLocated
      with True "1.prems"
      have "find_and_click_loop cfg env template_path start_time timeout ?w1 = (found, w')"
        by (simp add: find_and_click_loop.simps [of cfg env template_path start_time timeout w])
      from "1.IH"(1) [OF True NotLocated this] True show ?thesis
        by (auto simp: sleep_def took_def pass_ms_def)
    next
      case LocateError
      with True "1.prems"
      have "find_and_click_loop cfg env template_path start_time timeout ?w1 = (found, w')"
        by (simp add: find_and_click_loop.simps [of cfg env template_path start_time timeout w])
      from "1.IH"(2) [OF True LocateError this] True show ?thesis
        by (auto simp: sleep_def took_def pass_ms_def)
    qed
  qed
qed

lemma find_text_and_click_loop_inv:
  assumes "find_text_and_click_loop cfg env hint start_time timeout w = (found, w')"
  shows "calls w' = calls w \<and> now w \<le> now w'
       \<and> now w' \<le> max (now w) (start_time + timeout + int (pass_ms cfg env))
       \<and> (\<not> found \<longrightarrow> clicks w' = clicks w \<and> timeout \<le> now w' - start_time)"
  using assms
proof (induction cfg env hint start_time timeout w rule: find_text_and_click_loop.induct)
  case (1 cfg env hint start_time timeout w)
  note unfold = find_text_and_click_loop.simps [of cfg env hint start_time timeout w]
  show ?case
  proof (cases "now w - start_time < timeout")
    case False
    with "1.prems" show ?thesis by (simp add: unfold)
  next
    case True
    let ?w1 = "took (ocr_ms env) (took (screenshot_ms env) w)"
    let ?next = "find_text_and_click_loop cfg env hint start_time timeout (sleep 500 ?w1)"
    show ?thesis
    proof (cases "image_to_data env (screenshot env (now w))")
      case None
      with True "1.prems" have "?next = (found, w')"
        by (simp add: unfold Let_def)
      from "1.IH"(1) [OF True refl refl None this] True show ?thesis
        by (auto simp: sleep_def took_def pass_ms_def)
    next
      case (Some ocr_result)
      show ?thesis
      proof (cases "scan_words hint ocr_result 0 (ocr_text ocr_result)")
        case (Inl e)
        with True Some "1.prems" have "?next = (found, w')"
          by (simp add: unfold Let_def)
        from "1.IH"(2) [OF True refl refl Some Inl this] True show ?thesis
          by (auto simp: sleep_def took_def pass_ms_def)
      next
        case (Inr hit)
        show ?thesis
        proof (cases hit)
          case None
          with True Some Inr "1.prems" have "?next = (found, w')"
            by (simp add: unfold Let_def)
          from "1.IH"(3) [OF True refl refl Some Inr None this] True show ?thesis
            by (auto simp: sleep_def took_def pass_ms_def)
        next
          case (Some xy)
          with True Inr \<open>image_to_data env (screenshot env (now w)) = Some ocr_result\<close> "1.prems"
          show ?thesis
            by (auto simp: unfold Let_def sleep_def took_def click_def pass_ms_def)
        qed
      qed
    qed
  qed
qed

lemma find_pixel_and_click_loop_inv:
  assumes "find_pixel_and_click_loop cfg env pixel_cfgs start_time timeout w = (found, w')"
  shows "calls w' = calls w \<and> now w \<le> now w'
       \<and> now w' \<le> max (now w) (start_time + timeout + int (pass_ms cfg env))
       \<and> (\<not> found \<longrightarrow> clicks w' = clicks w \<and> timeout \<le> now w' - start_time)"
  using assms
proof (induction cfg env pixel_cfgs start_time timeout w rule: find_pixel_and_click_loop.induct)
  case (1 cfg env pixel_cfgs start_time timeout w)
  note unfold = find_pixel_and_click_loop.simps [of cfg env pixel_cfgs start_time timeout w]
  show ?case
  proof (cases "now w - start_time < timeout")
    case False
    with "1.prems" show ?thesis by (simp add: unfold)
  next
    case True
    let ?w1 = "took (screenshot_ms env) w"
    show ?thesis
    proof (cases "match_rules (screenshot env (now w)) pixel_cfgs")
      case None
      with True "1.prems"
      have "find_pixel_and_click_loop cfg env pixel_cfgs start_time timeout (sleep 500 ?w1) = (found, w')"
        by (simp add: unfold Let_def)
      from "1.IH" [OF True refl refl None this] True show ?thesis
        by (auto simp: sleep_def took_def pass_ms_def)
    next
      case (Some xy)
      with True "1.prems" show ?thesis
        by (auto simp: unfold Let_def sleep_def took_def click_def pass_ms_def)
    qed
  qed
qed

lemma find_and_click_inv:
  assumes "find_and_click cfg env key timeout w = (found, w')"
  shows "calls w' = calls w @ [(Template, now w, timeout)] \<and> now w \<le> now w'
       \<and> now w' \<le> now w + max 0 timeout + int (pass_ms cfg env)
       \<and> (\<not> found \<longrightarrow> clicks w' = clicks w)"
proof (cases "\<exists>path. templates cfg key = Some path \<and> path \<noteq> []")
  case False
  with assms show ?thesis
    by (auto simp: find_and_click_def Let_def enter_def split: option.splits if_splits)
next
  case True
  then obtain path where path: "templates cfg key = Some path" "path \<noteq> []" by blast
  let ?w0 = "enter Template timeout w"
  from assms path have "find_and_click_loop cfg env path (now ?w0) timeout ?w0 = (found, w')"
    by (simp add: find_and_click_def Let_def)
  from find_and_click_loop_inv [OF this] show ?thesis
    by (auto simp: enter_def)
qed

lemma find_text_and_click_inv:
  assumes "find_text_and_click cfg env hint timeout w = (found, w')"
  shows "calls w' = calls w @ [(Ocr, now w, timeout)] \<and> now w \<le> now w'
       \<and> now w' \<le> now w + max 0 timeout + int (pass_ms cfg env)
       \<and> (\<not> found \<longrightarrow> clicks w' = clicks w)
       \<and> (\<not> found \<and> ocr_enabled cfg \<longrightarrow> timeout \<le> now w' - now w)"
proof (cases "ocr_enabled cfg")
  case False
  with assms show ?thesis
    by (auto simp: find_text_and_click_def Let_def enter_def)
next
  case True
  let ?w0 = "enter Ocr timeout w"
  from assms True have "find_text_and_click_loop cfg env hint (now ?w0) timeout ?w0 = (found, w')"
    by (simp add: find_text_and_click_def Let_def)
  from find_text_and_click_loop_inv [OF this] show ?thesis
    by (auto simp: enter_def)
qed

lemma find_pixel_and_click_inv:
  assumes "find_pixel_and_click cfg env key timeout w = (found, w')"
  shows "calls w' = calls w @ [(Pixel, now w, timeout)] \<and> now w \<le> now w'
       \<and> now w' \<le> now w + max 0 timeout + int (pass_ms cfg env)
       \<and> (\<not> found \<longrightarrow> clicks w' = clicks w)"
proof -
  let ?w0 = "enter Pixel timeout w"
  have "(found, w') = (False, ?w0)
      \<or> (\<exists>rules. find_pixel_and_click_loop cfg env rules (now ?w0) timeout ?w0 = (found, w'))"
    using assms
    by (auto simp: find_pixel_and_click_def Let_def split: option.splits pixel_cfgs.splits list.splits)
  then show ?thesis
  proof
    assume "(found, w') = (False, ?w0)"
    then show ?thesis by (auto simp: enter_def)
  next
    assume "\<exists>rules. find_pixel_and_click_loop cfg env rules (now ?w0) timeout ?w0 = (found, w')"
    then obtain rules where
      "find_pixel_and_click_loop cfg env rules (now ?w0) timeout ?w0 = (found, w')" ..
    from find_pixel_and_click_loop_inv [OF this] show ?thesis
      by (auto simp: enter_def)
  qed
qed


lemma pixel_fallback_cases:
  assumes "pixel_fallback cfg env key start_time timeout w = (found, w')"
  shows "(timeout - (now w - start_time) \<le> 0 \<and> \<not> found \<and> w' = w)
       \<or> (0 < timeout - (now w - start_time)
          \<and> find_pixel_and_click cfg env key (timeout - (now w - start_time)) w = (found, w'))"
  using assms by (auto simp: pixel_fallback_def Let_def split: if_splits)

lemma fallback_cases:
  assumes "find_with_fallback_and_click cfg env key hint timeout w = (found, w')"
  obtains
    (expired) "timeout \<le> 0" and "\<not> found" and "w' = w"
  | (template) "0 < timeout" and "find_and_click cfg env key timeout w = (True, w')" and "found"
  | (ocr_expired) w1 where "0 < timeout" and "find_and_click cfg env key timeout w = (False, w1)"
      and "ocr_enabled cfg" and "truthy hint" and "timeout - (now w1 - now w) \<le> 0"
      and "\<not> found" and "w' = w1"
  | (ocr) w1 where "0 < timeout" and "find_and_click cfg env key timeout w = (False, w1)"
      and "ocr_enabled cfg" and "truthy hint" and "0 < timeout - (now w1 - now w)"
      and "find_text_and_click cfg env (the hint) (timeout - (now w1 - now w)) w1 = (True, w')"
      and "found"
  | (ocr_pixel) w1 w2 where "0 < timeout" and "find_and_click cfg env key timeout w = (False, w1)"
      and "ocr_enabled cfg" and "truthy hint" and "0 < timeout - (now w1 - now w)"
      and "find_text_and_click cfg env (the hint) (timeout - (now w1 - now w)) w1 = (False, w2)"
      and "pixel_fallback cfg env key (now w) timeout w2 = (found, w')"
  | (pixel) w1 where "0 < timeout" and "find_and_click cfg env key timeout w = (False, w1)"
      and "\<not> (ocr_enabled cfg \<and> truthy hint)"
      and "pixel_fallback cfg env key (now w) timeout w1 = (found, w')"
proof (cases "timeout \<le> 0")
  case True
  with assms have "\<not> found" and "w' = w"
    by (simp_all add: find_with_fallback_and_click_def)
  with True show ?thesis by (rule expired)
next
  case False
  then have pos: "0 < timeout" by simp
  obtain f1 w1 where s1: "find_and_click cfg env key timeout w = (f1, w1)"
    by (cases "find_and_click cfg env key timeout w")
  show ?thesis
  proof (cases f1)
    case True
    with assms pos s1 have "found" and "w1 = w'"
      by (simp_all add: find_with_fallback_and_click_def)
    with pos s1 True show ?thesis by (intro template) simp_all
  next
    case f1: False
    have rest: "(if ocr_enabled cfg \<and> truthy hint then
                  (if timeout - (now w1 - now w) \<le> 0 then (False, w1)
                   else
                     (case find_text_and_click cfg env (the hint)
                             (timeout - (now w1 - now w)) w1 of
                        (True, w2) \<Rightarrow> (True, w2)
                      | (False, w2) \<Rightarrow> pixel_fallback cfg env key (now w) timeout w2))
                else pixel_fallback cfg env key (now w) timeout w1) = (found, w')"
      using assms pos s1 f1
      by (simp add: find_with_fallback_and_click_def Let_def del: split_paired_All cong: if_cong)
    show ?thesis
    proof (cases "ocr_enabled cfg \<and> truthy hint")
      case False
      with rest have "pixel_fallback cfg env key (now w) timeout w1 = (found, w')"
        by simp
      with pos s1 f1 False show ?thesis by (intro pixel [of w1]) simp_all
    next
      case en: True
      show ?thesis
      proof (cases "timeout - (now w1 - now w) \<le> 0")
        case True
        with rest en have "\<not> found" and "w' = w1" by (simp_all add: Let_def)
        with pos s1 f1 en True show ?thesis by (intro ocr_expired [of w1]) simp_all
      next
        case False
        then have rem: "0 < timeout - (now w1 - now w)" by simp
        obtain f2 w2 where
          s2: "find_text_and_click cfg env (the hint) (timeout - (now w1 - now w)) w1 = (f2, w2)"
          by (cases "find_text_and_click cfg env (the hint) (timeout - (now w1 - now w)) w1")
        show ?thesis
        proof (cases f2)
          case True
          with rest en False s2 have "found" and "w2 = w'" by (simp_all add: Let_def)
          with pos s1 f1 en rem s2 True show ?thesis by (intro ocr [of w1]) simp_all
        next
          case f2: False
          with rest en False s2
          have "pixel_fallback cfg env key (now w) timeout w2 = (found, w')"
            by (simp add: Let_def)
          with pos s1 f1 en rem s2 f2 show ?thesis by (intro ocr_pixel [of w1 w2]) simp_all
        qed
      qed
    qed
  qed
qed

lemma template_loop_hit:
  assumes "now w - start_time < timeout"
    and "locateCenterOnScreen env (now w) template_path = Located location"
  shows "find_and_click_loop cfg env template_path start_time timeout w =
    (True, sleep (delay_operation cfg) (click env location (took (locate_ms env) w)))"
  by (subst find_and_click_loop.simps) (simp add: assms)

text \<open>
  C3, as the code has it. When the template is located in the first polling pass, the
  chain returns success in that pass: the only locator entered is the template stage,
  OCR and pixel stage are never invoked, no half-second poll sleep is made, and the
  time the call takes is the time of the search and of the click plus the operation
  delay after the click (one second unless configured).
\<close>

theorem template_first_pass:
  assumes "templates cfg key = Some template_path" and "template_path \<noteq> []"
    and "0 < timeout"
    and "locateCenterOnScreen env (now w) template_path = Located location"
  shows "find_with_fallback_and_click cfg env key hint timeout w =
    (True, w\<lparr>now := now w + int (locate_ms env) + int (click_ms env) + int (delay_operation cfg),
             clicks := clicks w @ [location],
             calls := calls w @ [(Template, now w, timeout)]\<rparr>)"
proof -
  let ?w0 = "enter Template timeout w"
  have "find_and_click_loop cfg env template_path (now ?w0) timeout ?w0 =
    (True, sleep (delay_operation cfg) (click env location (took (locate_ms env) ?w0)))"
    by (rule template_loop_hit) (use assms in \<open>simp_all add: enter_def\<close>)
  then have "find_and_click cfg env key timeout w =
    (True, sleep (delay_operation cfg) (click env location (took (locate_ms env) ?w0)))"
    using assms(1,2) by (simp add: find_and_click_def Let_def)
  then show ?thesis
    using assms(3)
    by (simp add: find_with_fallback_and_click_def enter_def sleep_def took_def click_def Let_def)
qed

theorem template_first_pass_witness:
  "templates copy_config ''vscode_copy_button'' = Some ''templates/vscode_copy_button.png''
   \<and> locateCenterOnScreen copy_visible (now fresh) ''templates/vscode_copy_button.png'' = Located (640, 480)
   \<and> find_with_fallback_and_click copy_config copy_visible ''vscode_copy_button'' (Some ''Copy'') 30000 fresh =
       (True, \<lparr>now = 1000, clicks = [(640, 480)], calls = [(Template, 0, 30000)]\<rparr>)"
  using template_first_pass [of copy_config "''vscode_copy_button''" "''templates/vscode_copy_button.png''"
      30000 copy_visible fresh "(640, 480)" "Some ''Copy''"]
  by (simp add: copy_config_def copy_visible_def fresh_def delay_operation_def)

theorem template_first_pass_counterexample:
  "fst (find_with_fallback_and_click copy_config copy_visible ''vscode_copy_button'' (Some ''Copy'') 30000 fresh)
   \<and> \<not> now (snd (find_with_fallback_and_click copy_config copy_visible ''vscode_copy_button''
              (Some ''Copy'') 30000 fresh)) - now fresh \<le> 500"
  by code_simp

lemma pixel_fallback_inv:
  assumes "pixel_fallback cfg env key start_time timeout w = (found, w')"
    and "now w \<le> start_time + max 0 timeout + int (pass_ms cfg env)" and "start_time \<le> now w"
  shows "\<exists>new. calls w' = calls w @ new
           \<and> list_all (\<lambda>(s, t, r). 0 < r \<and> r = timeout - (t - start_time)) new
           \<and> now w' \<le> start_time + max 0 timeout + int (pass_ms cfg env)"
  using pixel_fallback_cases [OF assms(1)]
proof
  assume "timeout - (now w - start_time) \<le> 0 \<and> \<not> found \<and> w' = w"
  with assms(2) show ?thesis by simp
next
  assume h: "0 < timeout - (now w - start_time)
     \<and> find_pixel_and_click cfg env key (timeout - (now w - start_time)) w = (found, w')"
  then have "find_pixel_and_click cfg env key (timeout - (now w - start_time)) w = (found, w')"
    by simp
  from find_pixel_and_click_inv [OF this] h assms(3) show ?thesis by auto
qed

lemma fallback_calls_time:
  assumes "find_with_fallback_and_click cfg env key hint timeout w = (found, w')"
  shows "list_all (\<lambda>(s, t, r). 0 < r \<and> r = timeout - (t - now w))
           (drop (length (calls w)) (calls w'))
       \<and> now w' - now w \<le> max 0 timeout + int (pass_ms cfg env)"
  using assms
proof (cases rule: fallback_cases)
  case expired
  then show ?thesis by simp
next
  case template
  from find_and_click_inv [OF template(2)] template(1) show ?thesis by auto
next
  case (ocr_expired w1)
  from find_and_click_inv [OF ocr_expired(2)] ocr_expired(1,7) show ?thesis by auto
next
  case (ocr w1)
  from find_and_click_inv [OF ocr(2)] find_text_and_click_inv [OF ocr(6)] ocr(1,5)
  show ?thesis by auto
next
  case (ocr_pixel w1 w2)
  note i1 = find_and_click_inv [OF ocr_pixel(2)]
  note i2 = find_text_and_click_inv [OF ocr_pixel(6)]
  have "now w2 \<le> now w + max 0 timeout + int (pass_ms cfg env)" and "now w \<le> now w2"
    using i1 i2 ocr_pixel(1,5) by auto
  from pixel_fallback_inv [OF ocr_pixel(7) this] obtain new where
    new: "calls w' = calls w2 @ new"
      "list_all (\<lambda>(s, t, r). 0 < r \<and> r = timeout - (t - now w)) new"
      "now w' \<le> now w + max 0 timeout + int (pass_ms cfg env)"
    by blast
  have "calls w' = calls w @ ((Template, now w, timeout) #
      (Ocr, now w1, timeout - (now w1 - now w)) # new)"
    using new(1) i1 i2 by simp
  then have "drop (length (calls w)) (calls w') =
      (Template, now w, timeout) # (Ocr, now w1, timeout - (now w1 - now w)) # new"
    by simp
  with new(2,3) ocr_pixel(1,5) show ?thesis by simp
next
  case (pixel w1)
  note i1 = find_and_click_inv [OF pixel(2)]
  have "now w1 \<le> now w + max 0 timeout + int (pass_ms cfg env)" and "now w \<le> now w1"
    using i1 pixel(1) by auto
  from pixel_fallback_inv [OF pixel(4) this] obtain new where
    new: "calls w' = calls w1 @ new"
      "list_all (\<lambda>(s, t, r). 0 < r \<and> r = timeout - (t - now w)) new"
      "now w' \<le> now w + max 0 timeout + int (pass_ms cfg env)"
    by blast
  have "calls w' = calls w @ ((Template, now w, timeout) # new)"
    using new(1) i1 by simp
  then have "drop (length (calls w)) (calls w') = (Template, now w, timeout) # new"
    by simp
  with new(2,3) pixel(1) show ?thesis by simp
qed

lemma fallback_expired_before_ocr:
  assumes "find_with_fallback_and_click cfg env key hint timeout w = (found, w')"
    and "0 < timeout" and "find_and_click cfg env key timeout w = (False, w1)"
    and "timeout - (now w1 - now w) \<le> 0"
  shows "\<not> found \<and> w' = w1"
  using assms
  by (auto simp: find_with_fallback_and_click_def Let_def pixel_fallback_def split: if_splits)

lemma fallback_expired_before_pixel:
  assumes "find_with_fallback_and_click cfg env key hint timeout w = (found, w')"
    and "0 < timeout" and "find_and_click cfg env key timeout w = (False, w1)"
    and "ocr_enabled cfg" and "truthy hint" and "0 < timeout - (now w1 - now w)"
    and "find_text_and_click cfg env (the hint) (timeout - (now w1 - now w)) w1 = (False, w2)"
    and "timeout - (now w2 - now w) \<le> 0"
  shows "\<not> found \<and> w' = w2"
  using assms
  by (auto simp: find_with_fallback_and_click_def Let_def pixel_fallback_def split: if_splits)


text \<open>
  C2, as the code has it. Every stage the chain enters is given exactly the remaining
  budget, the timeout minus the time elapsed since the start of the call, and is
  entered only when that is positive; when the budget is used up at one of the three
  checks the call fails there, with nothing more done. The time spent can exceed the
  timeout, by at most the length of one polling pass.
\<close>

theorem fallback_budget:
  assumes "find_with_fallback_and_click cfg env key hint timeout w = (found, w')"
  shows "list_all (\<lambda>(s, t, r). 0 < r \<and> r = timeout - (t - now w))
           (drop (length (calls w)) (calls w'))
       \<and> (timeout \<le> 0 \<longrightarrow> \<not> found \<and> w' = w)
       \<and> (\<forall>w1. 0 < timeout \<and> find_and_click cfg env key timeout w = (False, w1)
              \<and> timeout - (now w1 - now w) \<le> 0
            \<longrightarrow> \<not> found \<and> w' = w1)
       \<and> (\<forall>w1 w2. 0 < timeout \<and> find_and_click cfg env key timeout w = (False, w1)
              \<and> ocr_enabled cfg \<and> truthy hint \<and> 0 < timeout - (now w1 - now w)
              \<and> find_text_and_click cfg env (the hint) (timeout - (now w1 - now w)) w1 = (False, w2)
              \<and> timeout - (now w2 - now w) \<le> 0
            \<longrightarrow> \<not> found \<and> w' = w2)
       \<and> now w' - now w \<le> max 0 timeout + int (pass_ms cfg env)"
proof -
  have "\<not> found \<and> w' = w" if "timeout \<le> 0"
    using assms that by (simp add: find_with_fallback_and_click_def Let_def)
  then show ?thesis
    using fallback_calls_time [OF assms] fallback_expired_before_ocr [OF assms]
      fallback_expired_before_pixel [OF assms]
    by blast
qed

theorem fallback_budget_witness:
  "find_with_fallback_and_click copy_config slow_blank ''vscode_copy_button'' (Some ''Copy'') 0 fresh
     = (False, fresh)
   \<and> find_and_click copy_config slow_blank ''vscode_copy_button'' 2000 fresh
     = (False, \<lparr>now = 2400, clicks = [], calls = [(Template, 0, 2000)]\<rparr>)
   \<and> find_with_fallback_and_click copy_config slow_blank ''vscode_copy_button'' (Some ''Copy'') 2000 fresh
     = (False, \<lparr>now = 2400, clicks = [], calls = [(Template, 0, 2000)]\<rparr>)
   \<and> 2400 - now fresh \<le> max 0 2000 + int (pass_ms copy_config slow_blank)
   \<and> list_all (\<lambda>(s, t, r). 0 < r \<and> r = 1000 - (t - now fresh))
        (drop (length (calls fresh)) [(Template, 0, 1000), (Ocr, 0, 1000)])
   \<and> ocr_enabled pixel_only_config \<and> truthy (Some ''Copy'')
   \<and> find_and_click pixel_only_config submit_screen ''vscode_copy_button'' 1000 fresh
     = (False, \<lparr>now = 0, clicks = [], calls = [(Template, 0, 1000)]\<rparr>)
   \<and> find_text_and_click pixel_only_config submit_screen ''Copy'' 1000
        \<lparr>now = 0, clicks = [], calls = [(Template, 0, 1000)]\<rparr>
     = (False, \<lparr>now = 1000, clicks = [], calls = [(Template, 0, 1000), (Ocr, 0, 1000)]\<rparr>)
   \<and> find_with_fallback_and_click pixel_only_config submit_screen ''vscode_copy_button'' (Some ''Copy'') 1000 fresh
     = (False, \<lparr>now = 1000, clicks = [], calls = [(Template, 0, 1000), (Ocr, 0, 1000)]\<rparr>)"
proof -
  let ?key = "''vscode_copy_button''"
  let ?w1 = "\<lparr>now = 2400, clicks = [], calls = [(Template, 0, 2000)]\<rparr>"
  let ?v1 = "\<lparr>now = 0, clicks = [], calls = [(Template, 0, 1000)]\<rparr>"
  let ?v2 = "\<lparr>now = 1000, clicks = [], calls = [(Template, 0, 1000), (Ocr, 0, 1000)]\<rparr>"
  have e0: "find_with_fallback_and_click copy_config slow_blank ?key (Some ''Copy'') 0 fresh
      = (False, fresh)"
    by code_simp
  have s1: "find_and_click copy_config slow_blank ?key 2000 fresh = (False, ?w1)"
    by code_simp
  have e1: "find_with_fallback_and_click copy_config slow_blank ?key (Some ''Copy'') 2000 fresh
      = (False, ?w1)"
    by code_simp
  have t1: "find_and_click pixel_only_config submit_screen ?key 1000 fresh = (False, ?v1)"
    by code_simp
  have t2: "find_text_and_click pixel_only_config submit_screen ''Copy'' 1000 ?v1 = (False, ?v2)"
    by code_simp
  have e2: "find_with_fallback_and_click pixel_only_config submit_screen ?key (Some ''Copy'') 1000 fresh
      = (False, ?v2)"
    by code_simp
  have en: "ocr_enabled pixel_only_config" and tr: "truthy (Some ''Copy'')"
    by code_simp+
  have bound: "2400 - now fresh \<le> max 0 2000 + int (pass_ms copy_config slow_blank)"
    using fallback_budget [OF e1] by simp
  have entered: "list_all (\<lambda>(s, t, r). 0 < r \<and> r = 1000 - (t - now fresh))
        (drop (length (calls fresh)) [(Template, 0, 1000), (Ocr, 0, 1000)])"
    using fallback_budget [OF e2] by simp
  show ?thesis
    using e0 s1 e1 t1 t2 e2 en tr bound entered by simp
qed

theorem fallback_budget_counterexample:
  "\<not> now (snd (find_with_fallback_and_click copy_config slow_blank ''vscode_copy_button''
              (Some ''Copy'') 2000 fresh)) - now fresh \<le> 2000"
  by code_simp

lemma text_loop_all_miss:
  assumes "\<And>t r xy. image_to_data env (screenshot env t) = Some r
             \<Longrightarrow> scan_words hint r 0 (ocr_text r) \<noteq> Inr (Some xy)"
  shows "\<not> fst (find_text_and_click_loop cfg env hint start_time timeout w)"
  using assms
proof (induction cfg env hint start_time timeout w rule: find_text_and_click_loop.induct)
  case (1 cfg env hint start_time timeout w)
  note unfold = find_text_and_click_loop.simps [of cfg env hint start_time timeout w]
  show ?case
  proof (cases "now w - start_time < timeout")
    case False
    then show ?thesis by (simp add: unfold)
  next
    case True
    show ?thesis
    proof (cases "image_to_data env (screenshot env (now w))")
      case None
      from "1.IH"(1) [OF True refl refl None "1.prems"] True None show ?thesis
        by (simp add: unfold Let_def)
    next
      case (Some r)
      show ?thesis
      proof (cases "scan_words hint r 0 (ocr_text r)")
        case (Inl e)
        from "1.IH"(2) [OF True refl refl Some Inl "1.prems"] True Some Inl show ?thesis
          by (simp add: unfold Let_def)
      next
        case (Inr hit)
        show ?thesis
        proof (cases hit)
          case None
          from "1.IH"(3) [OF True refl refl Some Inr None "1.prems"] True Some Inr None
          show ?thesis
            by (simp add: unfold Let_def)
        next
          case (Some xy)
          with Inr "1.prems" [OF \<open>image_to_data env (screenshot env (now w)) = Some r\<close>]
          show ?thesis by simp
        qed
      qed
    qed
  qed
qed

text \<open>
  C1, evaluated on the code. With no template for the key, OCR enabled and a text hint
  that the OCR stage never matches, the OCR stage polls until the whole budget is used
  up, so the budget check before the pixel stage fails: the chain returns failure
  without entering the pixel stage, whatever the pixel rules are.
\<close>

theorem ocr_miss_starves_pixel_stage:
  assumes "templates cfg key = None" and "ocr_enabled cfg" and "hint \<noteq> []" and "0 < timeout"
    and "\<forall>t r xy. image_to_data env (screenshot env t) = Some r
           \<longrightarrow> scan_words hint r 0 (ocr_text r) \<noteq> Inr (Some xy)"
  shows "\<exists>w'. find_with_fallback_and_click cfg env key (Some hint) timeout w = (False, w')
      \<and> clicks w' = clicks w \<and> timeout \<le> now w' - now w
      \<and> calls w' = calls w @ [(Template, now w, timeout), (Ocr, now w, timeout)]"
proof -
  let ?w1 = "enter Template timeout w"
  have s1: "find_and_click cfg env key timeout w = (False, ?w1)"
    using assms(1) by (simp add: find_and_click_def Let_def)
  obtain f2 w2 where s2: "find_text_and_click cfg env hint timeout ?w1 = (f2, w2)"
    by (cases "find_text_and_click cfg env hint timeout ?w1")
  have "\<not> fst (find_text_and_click_loop cfg env hint (now (enter Ocr timeout ?w1)) timeout
      (enter Ocr timeout ?w1))"
    by (rule text_loop_all_miss) (use assms(5) in blast)
  with s2 assms(2) have f2: "\<not> f2"
    by (simp add: find_text_and_click_def Let_def)
  from find_text_and_click_inv [OF s2] f2 assms(2)
  have w2: "calls w2 = calls ?w1 @ [(Ocr, now ?w1, timeout)]" "clicks w2 = clicks ?w1"
    "timeout \<le> now w2 - now ?w1"
    by simp_all
  then have late: "timeout - (now w2 - now w) \<le> 0"
    by (simp add: enter_def)
  have "find_with_fallback_and_click cfg env key (Some hint) timeout w = (False, w2)"
    using s1 s2 f2 late assms(2,3,4)
    by (simp add: find_with_fallback_and_click_def Let_def truthy_def pixel_fallback_def enter_def)
  with w2 show ?thesis
    by (simp add: enter_def)
qed

lemma copy_not_read: "scan_words ''Copy'' submit_words 0 (ocr_text submit_words) = Inr None"
  by code_simp

theorem ocr_miss_starves_pixel_stage_witness:
  "templates pixel_only_config ''vscode_copy_button'' = None
   \<and> ocr_enabled pixel_only_config
   \<and> scan_words ''Copy'' submit_words 0 (ocr_text submit_words) = Inr None
   \<and> match_rules (screenshot submit_screen 0) [white_pixel_rule] = Some (100, 200)
   \<and> find_pixel_and_click pixel_only_config submit_screen ''vscode_copy_button'' 30000 fresh
       = (True, \<lparr>now = 1000, clicks = [(100, 200)], calls = [(Pixel, 0, 30000)]\<rparr>)
   \<and> \<not> fst (find_with_fallback_and_click pixel_only_config submit_screen ''vscode_copy_button''
          (Some ''Copy'') 30000 fresh)
   \<and> clicks (snd (find_with_fallback_and_click pixel_only_config submit_screen ''vscode_copy_button''
          (Some ''Copy'') 30000 fresh)) = []
   \<and> calls (snd (find_with_fallback_and_click pixel_only_config submit_screen ''vscode_copy_button''
          (Some ''Copy'') 30000 fresh)) = [(Template, 0, 30000), (Ocr, 0, 30000)]"
proof -
  have no_template: "templates pixel_only_config ''vscode_copy_button'' = None"
    by (simp add: pixel_only_config_def)
  have en: "ocr_enabled pixel_only_config"
    by (simp add: ocr_enabled_def pixel_only_config_def)
  have miss: "\<forall>t r xy. image_to_data submit_screen (screenshot submit_screen t) = Some r
           \<longrightarrow> scan_words ''Copy'' r 0 (ocr_text r) \<noteq> Inr (Some xy)"
    using copy_not_read by (simp add: submit_screen_def)
  have rule: "match_rules (screenshot submit_screen 0) [white_pixel_rule] = Some (100, 200)"
    by code_simp
  have alone: "find_pixel_and_click pixel_only_config submit_screen ''vscode_copy_button'' 30000 fresh
       = (True, \<lparr>now = 1000, clicks = [(100, 200)], calls = [(Pixel, 0, 30000)]\<rparr>)"
    by code_simp
  from ocr_miss_starves_pixel_stage [OF no_template en _ _ miss, of 30000 fresh]
  obtain w' where
    "find_with_fallback_and_click pixel_only_config submit_screen ''vscode_copy_button''
       (Some ''Copy'') 30000 fresh = (False, w')"
    and "clicks w' = clicks fresh"
    and "calls w' = calls fresh @ [(Template, now fresh, 30000), (Ocr, now fresh, 30000)]"
    by auto
  then show ?thesis
    using no_template en copy_not_read rule alone by (simp add: fresh_def)
qed

section \<open>Properties of the relay loop\<close>

lemma attempts_bounded:
  "int retries < max_retries \<Longrightarrow>
   list_all (\<lambda>(i, a). int a \<le> max_retries)
     (attempts_of (run_loop max_retries backoff_base max_backoff script iterations retries))"
proof (induction script arbitrary: iterations retries)
  case Nil
  then show ?case by simp
next
  case (Cons p script)
  show ?case
  proof (cases p)
    case Paused
    with Cons show ?thesis by simp
  next
    case (Attempt what)
    have zero: "int 0 < max_retries" using Cons.prems by simp
    show ?thesis
    proof (cases what)
      case Completed
      with Attempt Cons.prems Cons.IH [OF zero] show ?thesis by (simp add: Let_def)
    next
      case Continue
      with Attempt Cons.prems Cons.IH [OF Cons.prems] show ?thesis by (simp add: Let_def)
    next
      case Runtime_Error
      show ?thesis
      proof (cases "int (retries + 1) \<ge> max_retries")
        case True
        with Attempt Runtime_Error Cons.prems Cons.IH [OF zero] show ?thesis
          by (simp add: Let_def)
      next
        case False
        then have "int (retries + 1) < max_retries" by simp
        from Cons.IH [OF this] Attempt Runtime_Error Cons.prems False show ?thesis
          by (simp add: Let_def)
      qed
    next
      case Other_Exception
      with Attempt Cons.prems show ?thesis by (simp add: Let_def)
    qed
  qed
qed

text \<open>
  C4, as the code has it. With base 2, cap 30 and at most 5 retries, five failures in a
  row are attempts 1 to 5 with sleeps of 2, 4, 8 and 16 seconds between them; the fifth
  failure is followed by the report that the retries are exhausted and by no sleep, the
  next pass is attempt 1 again, and no run ever logs an attempt number above 5. The
  cap of 30 seconds is the fifth sleep, which takes at least 6 retries to reach.
\<close>

theorem backoff_five_failures:
  "sleeps_of (run \<lparr>max_retries_per_iteration = Some 5, backoff_base_seconds = Some 2,
       max_backoff_seconds = Some 30\<rparr> (replicate 5 (Attempt Runtime_Error))) = [2, 4, 8, 16]
   \<and> map snd (attempts_of (run \<lparr>max_retries_per_iteration = Some 5, backoff_base_seconds = Some 2,
       max_backoff_seconds = Some 30\<rparr> (replicate 5 (Attempt Runtime_Error) @ [Attempt what])))
       = [1, 2, 3, 4, 5, 1]
   \<and> skips_of (run \<lparr>max_retries_per_iteration = Some 5, backoff_base_seconds = Some 2,
       max_backoff_seconds = Some 30\<rparr> (replicate 5 (Attempt Runtime_Error))) = 1
   \<and> (\<exists>i. last (run \<lparr>max_retries_per_iteration = Some 5, backoff_base_seconds = Some 2,
       max_backoff_seconds = Some 30\<rparr> (replicate 5 (Attempt Runtime_Error))) = Max_retries_reached i)
   \<and> list_all (\<lambda>(i, a). a \<le> 5) (attempts_of (run \<lparr>max_retries_per_iteration = Some 5,
       backoff_base_seconds = Some 2, max_backoff_seconds = Some 30\<rparr> script))
   \<and> sleeps_of (run \<lparr>max_retries_per_iteration = Some 6, backoff_base_seconds = Some 2,
       max_backoff_seconds = Some 30\<rparr> (replicate 6 (Attempt Runtime_Error))) = [2, 4, 8, 16, 30]"
proof -
  have "list_all (\<lambda>(i, a). int a \<le> 5) (attempts_of (run_loop 5 2 30 script 0 0))"
    by (rule attempts_bounded) simp
  then have "list_all (\<lambda>(i, a). a \<le> 5) (attempts_of (run_loop 5 2 30 script 0 0))"
    by (simp add: list_all_iff split_def)
  moreover have "map snd (attempts_of (run_loop 5 2 30
      (replicate 5 (Attempt Runtime_Error) @ [Attempt what]) 0 0)) = [1, 2, 3, 4, 5, 1]"
    by (cases what) (simp_all add: numeral_eq_Suc)
  ultimately show ?thesis
    by (simp add: run_def numeral_eq_Suc)
qed

theorem backoff_five_failures_counterexample:
  "sleeps_of (run \<lparr>max_retries_per_iteration = Some 5, backoff_base_seconds = Some 2,
       max_backoff_seconds = Some 30\<rparr> (replicate 5 (Attempt Runtime_Error))) \<noteq> [2, 4, 8, 16, 30]"
  by (simp add: run_def numeral_eq_Suc)

text \<open>
  C5, evaluated on the code: a first attempt that fails with \<^verbatim>\<open>RuntimeError\<close> is
  followed by the backoff sleep of \<open>min (2 * 2 ^ 0) 30 = 2\<close> seconds, and the retry is
  logged as iteration 2, attempt 2: the iteration number has moved with the retry.
\<close>

theorem retry_advances_iteration_number:
  "run \<lparr>max_retries_per_iteration = Some 5, backoff_base_seconds = Some 2,
       max_backoff_seconds = Some 30\<rparr> [Attempt Runtime_Error, Attempt Completed]
   = [Starting 1 1, Attempt_failed 1, Backoff_sleep 2, Starting 2 2, Iteration_completed 2]"
  by (simp add: run_def)

end
